theory Spec2Isabelle
  imports Complex_Main "HOL-Library.Multiset"
begin

section \<open>Text: Python strings restricted to code points below 256\<close>

text \<open>
  A Python \<open>str\<close> is a sequence of code points. The model takes a \<open>char\<close> to be a code
  point in the range 0..255 (ASCII and the Latin-1 supplement), and every function on
  characters below is what CPython 3 computes on that range.
\<close>

definition code :: "char \<Rightarrow> nat" where
  "code c = of_char c"

text \<open>\<open>str.isspace\<close> on one character; also the class \<open>\s\<close> of \<open>re\<close> on a str pattern.\<close>

definition isspace_chr :: "char \<Rightarrow> bool" where
  "isspace_chr c \<longleftrightarrow>
     (9 \<le> code c \<and> code c \<le> 13) \<or> (28 \<le> code c \<and> code c \<le> 32) \<or> code c = 133 \<or> code c = 160"

text \<open>\<open>str.isdigit\<close> on one character: 0-9 and the superscripts two, three, one.\<close>

definition isdigit_chr :: "char \<Rightarrow> bool" where
  "isdigit_chr c \<longleftrightarrow>
     (48 \<le> code c \<and> code c \<le> 57) \<or> code c = 178 \<or> code c = 179 \<or> code c = 185"

text \<open>The class \<open>\w\<close> of \<open>re\<close> on a str pattern: alphanumeric characters and the underscore.\<close>

definition isword_chr :: "char \<Rightarrow> bool" where
  "isword_chr c \<longleftrightarrow>
     (48 \<le> code c \<and> code c \<le> 57) \<or> (65 \<le> code c \<and> code c \<le> 90) \<or> code c = 95 \<or>
     (97 \<le> code c \<and> code c \<le> 122) \<or> code c = 170 \<or> code c = 178 \<or> code c = 179 \<or>
     code c = 181 \<or> code c = 185 \<or> code c = 186 \<or> (188 \<le> code c \<and> code c \<le> 190) \<or>
     (192 \<le> code c \<and> code c \<le> 214) \<or> (216 \<le> code c \<and> code c \<le> 246) \<or> 248 \<le> code c"

text \<open>\<open>str.lower\<close> on one character: A-Z and the capital letters of Latin-1 move up by 32.\<close>

definition lower_chr :: "char \<Rightarrow> char" where
  "lower_chr c =
     (if (65 \<le> code c \<and> code c \<le> 90) \<or> (192 \<le> code c \<and> code c \<le> 222 \<and> code c \<noteq> 215)
      then char_of (code c + 32) else c)"

text \<open>\<open>text.lower()\<close>\<close>

definition lower :: "string \<Rightarrow> string" where
  "lower text = map lower_chr text"

text \<open>\<open>re.sub(r'[^\w\s]', '', text)\<close>: every character that is neither a word character
  nor whitespace is deleted.\<close>

definition strip_punct :: "string \<Rightarrow> string" where
  "strip_punct text = filter (\<lambda>c. isword_chr c \<or> isspace_chr c) text"

text \<open>\<open>text.split()\<close>: the maximal runs of non-whitespace characters, in order. The first
  argument is the run read so far.\<close>

fun split_from :: "string \<Rightarrow> string \<Rightarrow> string list" where
  "split_from cur [] = (if cur = [] then [] else [cur])"
| "split_from cur (c # cs) =
     (if isspace_chr c then (if cur = [] then split_from [] cs else cur # split_from [] cs)
      else split_from (cur @ [c]) cs)"

definition split_ws :: "string \<Rightarrow> string list" where
  "split_ws text = split_from [] text"

text \<open>\<open>word.isdigit()\<close>: at least one character and all of them digits.\<close>

definition isdigit :: "string \<Rightarrow> bool" where
  "isdigit word \<longleftrightarrow> word \<noteq> [] \<and> list_all isdigit_chr word"

text \<open>A word is lowercase when \<open>lower\<close> leaves it as it is.\<close>

definition is_lowercase :: "string \<Rightarrow> bool" where
  "is_lowercase word \<longleftrightarrow> lower word = word"

section \<open>The module state set up at import time\<close>

text \<open>
  Lines 65-78 of main.py bind three module globals. NLTK itself is an external library:
  its English stopword list and its \<open>word_tokenize\<close> are parameters here. A tokenizer
  returns \<open>None\<close> when the call raises.
\<close>

record env =
  NLTK_RESOURCES_READY :: bool
  STOP_WORDS :: "string set"
  word_tokenize :: "string \<Rightarrow> string list option"

definition module_env :: "bool \<Rightarrow> string set \<Rightarrow> (string \<Rightarrow> string list option) \<Rightarrow> env" where
  "module_env ready nltk_stopwords nltk_word_tokenize =
     (if ready
      then \<lparr>NLTK_RESOURCES_READY = True, STOP_WORDS = nltk_stopwords,
            word_tokenize = nltk_word_tokenize\<rparr>
      else \<lparr>NLTK_RESOURCES_READY = False, STOP_WORDS = {},
            word_tokenize = (\<lambda>text. Some (if text \<noteq> [] then split_ws text else []))\<rparr>)"

section \<open>preprocess\_text\<close>

text \<open>The condition of both list comprehensions (lines 99 and 112-115).\<close>

definition keep_token :: "env \<Rightarrow> string \<Rightarrow> bool" where
  "keep_token e word \<longleftrightarrow> word \<notin> STOP_WORDS e \<and> (1 < length word \<or> isdigit word)"

text \<open>The argument is \<open>None\<close> for Python's \<open>None\<close>.\<close>

definition preprocess_text :: "env \<Rightarrow> string option \<Rightarrow> string list" where
  "preprocess_text e text_arg =
     (case text_arg of
        None \<Rightarrow> []
      | Some text \<Rightarrow>
          if text = [] then []
          else if \<not> NLTK_RESOURCES_READY e then
            (let text = lower text;
                 text = strip_punct text;
                 tokens = split_ws text
             in filter (keep_token e) tokens)
          else
            (let text = lower text;
                 text = strip_punct text;
                 tokens = (case word_tokenize e text of Some ts \<Rightarrow> ts | None \<Rightarrow> split_ws text)
             in filter (keep_token e) tokens))"

section \<open>collections.Counter\<close>

text \<open>
  A \<open>Counter\<close> is a dict from elements to counts that remembers the order in which the
  keys were first inserted: an association list in that order.
\<close>

type_synonym counter = "(string \<times> nat) list"

fun counter_add :: "string \<Rightarrow> counter \<Rightarrow> counter" where
  "counter_add x [] = [(x, 1)]"
| "counter_add x ((y, n) # c) =
     (if x = y then (y, Suc n) # c else (y, n) # counter_add x c)"

definition Counter :: "string list \<Rightarrow> counter" where
  "Counter xs = foldl (\<lambda>c x. counter_add x c) [] xs"

text \<open>\<open>counter[x]\<close>: a missing key has count 0.\<close>

definition counter_get :: "counter \<Rightarrow> string \<Rightarrow> nat" where
  "counter_get c x = (case map_of c x of None \<Rightarrow> 0 | Some n \<Rightarrow> n)"

text \<open>\<open>counter.keys()\<close>\<close>

definition keys :: "counter \<Rightarrow> string list" where
  "keys c = map fst c"

text \<open>
  \<open>sorted(xs, key=k, reverse=True)\<close>: descending by key; the sort is stable, and with
  \<open>reverse=True\<close> elements of equal key still keep their order in \<open>xs\<close>.
\<close>

definition sorted_reverse :: "('a \<Rightarrow> nat) \<Rightarrow> 'a list \<Rightarrow> 'a list" where
  "sorted_reverse k xs = sort_key (\<lambda>x. - int (k x)) xs"

text \<open>
  \<open>counter.most_common(n)\<close> is \<open>heapq.nlargest(n, counter.items(), key=count)\<close>: the first
  \<open>n\<close> items of the descending stable sort, and no item when \<open>n \<le> 0\<close>.
\<close>

definition most_common :: "int \<Rightarrow> counter \<Rightarrow> (string \<times> nat) list" where
  "most_common n c = take (nat n) (sorted_reverse snd c)"

text \<open>\<open>xs[:n]\<close>: a negative \<open>n\<close> counts from the end.\<close>

definition slice_to :: "int \<Rightarrow> 'a list \<Rightarrow> 'a list" where
  "slice_to n xs = (if 0 \<le> n then take (nat n) xs else take (length xs - nat (- n)) xs)"

section \<open>calculate\_match\_score\<close>

text \<open>
  The score is a Python float. It is modelled by an exact rational: the binary rounding of
  \<open>/\<close> and \<open>*\<close> is left out, and \<open>round(score, 2)\<close> is rounding to the nearest multiple of
  1/100, a tie going to the even one.
\<close>

definition round_half_even :: "rat \<Rightarrow> int" where
  "round_half_even x =
     (let f = \<lfloor>x\<rfloor>; d = x - of_int f
      in if d < 1 / 2 then f else if 1 / 2 < d then f + 1 else if even f then f else f + 1)"

definition round2 :: "rat \<Rightarrow> rat" where
  "round2 x = of_int (round_half_even (x * 100)) / 100"

text \<open>
  A Python set is modelled by the list of its elements, each once. The order in which
  the interpreter iterates a set is fixed neither by the source nor by the elements: it
  follows the hashes of the strings, which CPython salts anew in every process. The
  iteration is therefore a parameter \<open>it\<close> of the model, a rearrangement of the elements.
\<close>

definition set_iteration :: "(string list \<Rightarrow> string list) \<Rightarrow> bool" where
  "set_iteration it \<longleftrightarrow> (\<forall>xs. mset (it xs) = mset xs)"

text \<open>Line 137: the keywords of the job description that occur at least \<open>min_freq\<close> times.\<close>

definition jd_keywords_filtered :: "string list \<Rightarrow> int \<Rightarrow> string list" where
  "jd_keywords_filtered jd_keywords min_freq =
     map fst (filter (\<lambda>(word, count). min_freq \<le> int count) (Counter jd_keywords))"

text \<open>Line 140: the intersection with the keys of the resume's counter.\<close>

definition matched_keywords :: "string list \<Rightarrow> string list \<Rightarrow> int \<Rightarrow> string list" where
  "matched_keywords resume_tokens jd_keywords min_freq =
     filter (\<lambda>w. w \<in> set (keys (Counter resume_tokens)))
       (jd_keywords_filtered jd_keywords min_freq)"

text \<open>Line 143: the difference.\<close>

definition missing_keywords :: "string list \<Rightarrow> string list \<Rightarrow> int \<Rightarrow> string list" where
  "missing_keywords resume_tokens jd_keywords min_freq =
     filter (\<lambda>w. w \<notin> set (matched_keywords resume_tokens jd_keywords min_freq))
       (jd_keywords_filtered jd_keywords min_freq)"

text \<open>Line 146, before rounding.\<close>

definition raw_score :: "string list \<Rightarrow> string list \<Rightarrow> int \<Rightarrow> rat" where
  "raw_score resume_tokens jd_keywords min_freq =
     (if jd_keywords_filtered jd_keywords min_freq \<noteq> []
      then of_nat (length (matched_keywords resume_tokens jd_keywords min_freq)) /
           of_nat (length (jd_keywords_filtered jd_keywords min_freq)) * 100
      else 0)"

text \<open>Lines 150 and 151: \<open>set(sorted(s, key=lambda x: resume_counter[x], reverse=True)[:top_n])\<close>.\<close>

definition top_keywords ::
  "(string list \<Rightarrow> string list) \<Rightarrow> counter \<Rightarrow> int \<Rightarrow> string list \<Rightarrow> string set" where
  "top_keywords it resume_counter top_n s =
     set (take (nat top_n) (sorted_reverse (counter_get resume_counter) (it s)))"

definition calculate_match_score ::
  "(string list \<Rightarrow> string list) \<Rightarrow> string list \<Rightarrow> string list \<Rightarrow> int \<Rightarrow> int \<Rightarrow>
   rat \<times> string set \<times> string set" where
  "calculate_match_score it resume_tokens jd_keywords min_freq top_n =
     (if resume_tokens = [] \<or> jd_keywords = [] then (0, {}, {})
      else
        let resume_counter = Counter resume_tokens;
            matched = matched_keywords resume_tokens jd_keywords min_freq;
            missing = missing_keywords resume_tokens jd_keywords min_freq;
            score = raw_score resume_tokens jd_keywords min_freq
        in if 0 < top_n
           then (round2 score, top_keywords it resume_counter top_n matched,
                 top_keywords it resume_counter top_n missing)
           else (round2 score, set matched, set missing))"

text \<open>The three components of the returned tuple.\<close>

definition score_of :: "rat \<times> string set \<times> string set \<Rightarrow> rat" where
  "score_of res = fst res"

definition matched_of :: "rat \<times> string set \<times> string set \<Rightarrow> string set" where
  "matched_of res = fst (snd res)"

definition missing_of :: "rat \<times> string set \<times> string set \<Rightarrow> string set" where
  "missing_of res = snd (snd res)"


section \<open>get\_keywords\<close>

definition get_keywords :: "env \<Rightarrow> string option \<Rightarrow> int \<Rightarrow> int \<Rightarrow> string list" where
  "get_keywords e text_arg min_freq top_n =
     (let tokens = preprocess_text e text_arg
      in if tokens = [] then []
         else
           let counts = Counter tokens;
               keywords = map fst (filter (\<lambda>(word, count). min_freq \<le> int count \<and> \<not> isdigit word)
                                     (most_common (top_n * 2) counts))
           in slice_to top_n keywords)"

section \<open>Lemmas on the counter, the keyword lists and the rounding\<close>

subsection \<open>Counter\<close>

lemma map_of_counter_add:
  "map_of (counter_add x c) = (map_of c)(x \<mapsto> Suc (counter_get c x))"
  by (induction x c rule: counter_add.induct) (auto simp: counter_get_def fun_eq_iff)

lemma keys_counter_add: "fst ` set (counter_add x c) = insert x (fst ` set c)"
  by (induction x c rule: counter_add.induct) auto

lemma distinct_counter_add:
  "distinct (map fst c) \<Longrightarrow> distinct (map fst (counter_add x c))"
  by (induction x c rule: counter_add.induct) (auto simp: keys_counter_add)

lemma counter_get_counter_add:
  "counter_get (counter_add x c) w = (if w = x then Suc (counter_get c w) else counter_get c w)"
  by (simp add: counter_get_def map_of_counter_add)

lemma foldl_counter_get:
  "counter_get (foldl (\<lambda>c x. counter_add x c) c xs) w = counter_get c w + count_list xs w"
  by (induction xs arbitrary: c) (auto simp: counter_get_counter_add)

lemma foldl_counter_keys:
  "fst ` set (foldl (\<lambda>c x. counter_add x c) c xs) = fst ` set c \<union> set xs"
  by (induction xs arbitrary: c) (auto simp: keys_counter_add)

lemma foldl_counter_distinct:
  "distinct (map fst c) \<Longrightarrow> distinct (map fst (foldl (\<lambda>c x. counter_add x c) c xs))"
  by (induction xs arbitrary: c) (auto simp: distinct_counter_add)

lemma counter_get_Counter: "counter_get (Counter xs) w = count_list xs w"
  using foldl_counter_get [of "[]" xs w] by (simp add: Counter_def counter_get_def)

lemma set_keys_Counter: "set (keys (Counter xs)) = set xs"
  by (simp add: Counter_def keys_def foldl_counter_keys)

lemma distinct_keys_Counter: "distinct (map fst (Counter xs))"
  by (simp add: Counter_def foldl_counter_distinct)

lemma Counter_entry:
  assumes "(w, n) \<in> set (Counter xs)"
  shows "n = count_list xs w \<and> w \<in> set xs"
proof -
  have "map_of (Counter xs) w = Some n"
    using assms distinct_keys_Counter by (simp add: map_of_eq_Some_iff)
  then have "counter_get (Counter xs) w = n"
    by (simp add: counter_get_def)
  moreover have "w \<in> set (keys (Counter xs))"
    using assms by (force simp: keys_def)
  ultimately show ?thesis
    by (simp add: counter_get_Counter set_keys_Counter)
qed

lemma Counter_entry_iff:
  "(w, n) \<in> set (Counter xs) \<longleftrightarrow> w \<in> set xs \<and> n = count_list xs w"
proof
  assume "(w, n) \<in> set (Counter xs)"
  then show "w \<in> set xs \<and> n = count_list xs w"
    using Counter_entry by blast
next
  assume h: "w \<in> set xs \<and> n = count_list xs w"
  then have "w \<in> set (map fst (Counter xs))"
    using set_keys_Counter by (simp add: keys_def)
  then obtain m where m: "(w, m) \<in> set (Counter xs)"
    by auto
  then have "m = count_list xs w"
    using Counter_entry by blast
  with h m show "(w, n) \<in> set (Counter xs)"
    by simp
qed

subsection \<open>The three keyword lists\<close>


lemma distinct_jd_keywords_filtered: "distinct (jd_keywords_filtered jd min_freq)"
  unfolding jd_keywords_filtered_def
  by (rule distinct_map_filter) (rule distinct_keys_Counter)

lemma set_matched_keywords:
  "set (matched_keywords r jd min_freq) = set (jd_keywords_filtered jd min_freq) \<inter> set r"
  by (auto simp: matched_keywords_def set_keys_Counter)

lemma set_missing_keywords:
  "set (missing_keywords r jd min_freq) = set (jd_keywords_filtered jd min_freq) - set r"
  by (auto simp: missing_keywords_def set_matched_keywords)

lemma distinct_matched_keywords: "distinct (matched_keywords r jd min_freq)"
  by (simp add: matched_keywords_def distinct_jd_keywords_filtered)

lemma distinct_missing_keywords: "distinct (missing_keywords r jd min_freq)"
  by (simp add: missing_keywords_def distinct_jd_keywords_filtered)


subsection \<open>Sorting and the cut\<close>

lemma set_sorted_reverse: "set (sorted_reverse k xs) = set xs"
  by (simp add: sorted_reverse_def)

lemma length_sorted_reverse: "length (sorted_reverse k xs) = length xs"
  by (simp add: sorted_reverse_def)

lemma distinct_sorted_reverse: "distinct (sorted_reverse k xs) = distinct xs"
  by (simp add: sorted_reverse_def)

lemma take_sorted_reverse_rank:
  assumes "x \<in> set (take n (sorted_reverse k xs))"
    and "y \<in> set xs" and "y \<notin> set (take n (sorted_reverse k xs))"
  shows "k y \<le> k x"
proof -
  let ?zs = "sorted_reverse k xs"
  have "sorted (map (\<lambda>x. - int (k x)) (take n ?zs @ drop n ?zs))"
    by (simp add: sorted_reverse_def)
  then have r: "\<forall>a\<in>set (take n ?zs). \<forall>b\<in>set (drop n ?zs). - int (k a) \<le> - int (k b)"
    by (simp only: map_append sorted_append) auto
  have "y \<in> set (take n ?zs @ drop n ?zs)"
    using assms(2) by (simp add: set_sorted_reverse)
  then have "y \<in> set (drop n ?zs)"
    using assms(3) by (simp only: set_append) blast
  with r assms(1) show ?thesis
    by fastforce
qed

lemma set_iteration_set: "set_iteration it \<Longrightarrow> set (it xs) = set xs"
  by (metis set_iteration_def set_mset_mset)

lemma set_iteration_length: "set_iteration it \<Longrightarrow> length (it xs) = length xs"
  by (metis set_iteration_def size_mset)

lemma set_iteration_distinct: "set_iteration it \<Longrightarrow> distinct (it xs) = distinct xs"
  by (metis set_iteration_def mset_eq_imp_distinct_iff)

lemma top_keywords_subset: "set_iteration it \<Longrightarrow> top_keywords it rc top_n s \<subseteq> set s"
  unfolding top_keywords_def
  using set_take_subset [of "nat top_n" "sorted_reverse (counter_get rc) (it s)"]
  by (simp add: set_sorted_reverse set_iteration_set)


lemma card_top_keywords:
  assumes "set_iteration it" "distinct s"
  shows "card (top_keywords it rc top_n s) = min (nat top_n) (length s)"
proof -
  have "distinct (take (nat top_n) (sorted_reverse (counter_get rc) (it s)))"
    using assms by (simp add: distinct_sorted_reverse set_iteration_distinct)
  then show ?thesis
    unfolding top_keywords_def
    by (simp add: distinct_card length_sorted_reverse set_iteration_length assms(1) min.commute)
qed

lemma top_keywords_rank:
  assumes "set_iteration it" "x \<in> top_keywords it rc top_n s"
    and "y \<in> set s" and "y \<notin> top_keywords it rc top_n s"
  shows "counter_get rc y \<le> counter_get rc x"
  using assms take_sorted_reverse_rank [of x "nat top_n" "counter_get rc" "it s" y]
  by (simp add: top_keywords_def set_iteration_set)

subsection \<open>Rounding\<close>

lemma round_half_even_mono: "x \<le> y \<Longrightarrow> round_half_even x \<le> round_half_even y"
proof -
  assume xy: "x \<le> y"
  have fl: "\<lfloor>x\<rfloor> \<le> \<lfloor>y\<rfloor>" using xy by (rule floor_mono)
  show ?thesis
  proof (cases "\<lfloor>x\<rfloor> = \<lfloor>y\<rfloor>")
    case True
    then have "x - of_int \<lfloor>x\<rfloor> \<le> y - of_int \<lfloor>y\<rfloor>" using xy by simp
    then show ?thesis using True
      by (auto simp: round_half_even_def Let_def)
  next
    case False
    then have "\<lfloor>x\<rfloor> + 1 \<le> \<lfloor>y\<rfloor>" using fl by simp
    moreover have "round_half_even x \<le> \<lfloor>x\<rfloor> + 1"
      by (simp add: round_half_even_def Let_def)
    moreover have "\<lfloor>y\<rfloor> \<le> round_half_even y"
      by (simp add: round_half_even_def Let_def)
    ultimately show ?thesis by linarith
  qed
qed

lemma round_half_even_of_int: "round_half_even (of_int n) = n"
  by (simp add: round_half_even_def)


lemma round2_mono: "x \<le> y \<Longrightarrow> round2 x \<le> round2 y"
  by (simp add: round2_def round_half_even_mono divide_right_mono)

lemma round2_zero: "round2 0 = 0"
  using round_half_even_of_int [of 0] by (simp add: round2_def)


lemma raw_score_nonneg: "0 \<le> raw_score r jd min_freq"
  by (simp add: raw_score_def)

subsection \<open>The returned tuple\<close>

lemma score_of_calculate:
  "score_of (calculate_match_score it r jd min_freq top_n) =
     (if r = [] \<or> jd = [] then 0 else round2 (raw_score r jd min_freq))"
  by (simp add: calculate_match_score_def score_of_def Let_def)

lemma matched_of_calculate:
  "matched_of (calculate_match_score it r jd min_freq top_n) =
     (if r = [] \<or> jd = [] then {}
      else if 0 < top_n then top_keywords it (Counter r) top_n (matched_keywords r jd min_freq)
      else set (matched_keywords r jd min_freq))"
  by (simp add: calculate_match_score_def matched_of_def Let_def)

lemma missing_of_calculate:
  "missing_of (calculate_match_score it r jd min_freq top_n) =
     (if r = [] \<or> jd = [] then {}
      else if 0 < top_n then top_keywords it (Counter r) top_n (missing_keywords r jd min_freq)
      else set (missing_keywords r jd min_freq))"
  by (simp add: calculate_match_score_def missing_of_def Let_def)


lemma matched_of_subset:
  "set_iteration it \<Longrightarrow>
   matched_of (calculate_match_score it r jd min_freq top_n) \<subseteq> set (matched_keywords r jd min_freq)"
  by (simp add: matched_of_calculate top_keywords_subset)

lemma missing_of_subset:
  "set_iteration it \<Longrightarrow>
   missing_of (calculate_match_score it r jd min_freq top_n) \<subseteq> set (missing_keywords r jd min_freq)"
  by (simp add: missing_of_calculate top_keywords_subset)






subsection \<open>Scenario A\<close>






lemma set_iteration_ident: "set_iteration (\<lambda>xs. xs)"
  by (simp add: set_iteration_def)

lemma set_iteration_rev: "set_iteration rev"
  by (simp add: set_iteration_def)


lemma jd_keywords_filtered_Nil: "jd_keywords_filtered [] min_freq = []"
  by (simp add: jd_keywords_filtered_def Counter_def)

lemma matched_keywords_Nil: "matched_keywords [] jd min_freq = []"
  by (simp add: matched_keywords_def Counter_def keys_def)

lemma length_filtered_cong:
  assumes "set (jd_keywords_filtered jd1 mf1) = set (jd_keywords_filtered jd2 mf2)"
  shows "length (jd_keywords_filtered jd1 mf1) = length (jd_keywords_filtered jd2 mf2)"
  using assms distinct_card [OF distinct_jd_keywords_filtered, of jd1 mf1]
    distinct_card [OF distinct_jd_keywords_filtered, of jd2 mf2]
  by simp

lemma score_of_nonneg: "0 \<le> score_of (calculate_match_score it r jd min_freq top_n)"
  using round2_mono [OF raw_score_nonneg, of r jd min_freq]
  by (simp add: score_of_calculate round2_zero)

subsection \<open>Many keywords\<close>









section \<open>Lemmas on preprocess\_text and get\_keywords\<close>

subsection \<open>Characters and tokens\<close>

lemma code_char_of: "n < 256 \<Longrightarrow> code (char_of n) = n"
  by (simp add: code_def)

lemma lower_chr_idem: "lower_chr (lower_chr c) = lower_chr c"
proof (cases "(65 \<le> code c \<and> code c \<le> 90) \<or> (192 \<le> code c \<and> code c \<le> 222 \<and> code c \<noteq> 215)")
  case True
  define d where "d = char_of (code c + 32)"
  have l: "lower_chr c = d"
    using True by (simp add: lower_chr_def d_def)
  have "code c + 32 < 256" using True by auto
  then have cd: "code d = code c + 32"
    unfolding d_def by (rule code_char_of)
  have "\<not> ((65 \<le> code d \<and> code d \<le> 90) \<or> (192 \<le> code d \<and> code d \<le> 222 \<and> code d \<noteq> 215))"
    using True unfolding cd by arith
  then have "lower_chr d = d"
    by (simp only: lower_chr_def if_False)
  then show ?thesis by (simp only: l)
next
  case False
  then have "lower_chr c = c"
    by (simp only: lower_chr_def if_False)
  then show ?thesis by simp
qed

lemma is_lowercase_iff: "is_lowercase w \<longleftrightarrow> (\<forall>c \<in> set w. lower_chr c = c)"
  using map_eq_conv [of lower_chr w id] by (simp add: is_lowercase_def lower_def)

lemma is_lowercase_lower: "is_lowercase (lower text)"
  by (simp add: is_lowercase_iff lower_def lower_chr_idem)

lemma is_lowercase_strip_punct: "is_lowercase text \<Longrightarrow> is_lowercase (strip_punct text)"
  by (simp add: is_lowercase_iff strip_punct_def)

lemma split_from_tokens:
  "t \<in> set (split_from cur s) \<Longrightarrow> t \<noteq> [] \<and> set t \<subseteq> set cur \<union> set s"
  by (induction cur s rule: split_from.induct) (auto split: if_splits)

lemma split_ws_tokens: "t \<in> set (split_ws s) \<Longrightarrow> t \<noteq> [] \<and> set t \<subseteq> set s"
  using split_from_tokens [of t "[]" s] by (simp add: split_ws_def)

lemma split_ws_lowercase: "is_lowercase s \<Longrightarrow> t \<in> set (split_ws s) \<Longrightarrow> is_lowercase t"
  using split_ws_tokens [of t s] by (auto simp: is_lowercase_iff)

lemma keep_token_length:
  "keep_token e w \<Longrightarrow> 1 \<le> length w \<and> (length w = 1 \<longrightarrow> isdigit w)"
  by (cases w) (auto simp: keep_token_def isdigit_def)

lemma preprocess_text_kept: "t \<in> set (preprocess_text e text_arg) \<Longrightarrow> keep_token e t"
  by (auto simp: preprocess_text_def Let_def split: option.splits if_splits)

lemma preprocess_text_degraded:
  "\<not> NLTK_RESOURCES_READY e \<Longrightarrow>
   preprocess_text e (Some text) = filter (keep_token e) (split_ws (strip_punct (lower text)))"
  by (simp add: preprocess_text_def Let_def split_ws_def strip_punct_def lower_def)

lemma preprocess_text_ready:
  "NLTK_RESOURCES_READY e \<Longrightarrow> text \<noteq> [] \<Longrightarrow>
   preprocess_text e (Some text) =
     filter (keep_token e)
       (case word_tokenize e (strip_punct (lower text)) of
          Some ts \<Rightarrow> ts | None \<Rightarrow> split_ws (strip_punct (lower text)))"
  by (simp add: preprocess_text_def Let_def)

lemma preprocess_text_lowercase:
  assumes tok: "NLTK_RESOURCES_READY e \<longrightarrow>
      (\<forall>text ts. word_tokenize e text = Some ts \<longrightarrow> is_lowercase text \<longrightarrow>
         (\<forall>t \<in> set ts. is_lowercase t))"
    and t: "t \<in> set (preprocess_text e text_arg)"
  shows "is_lowercase t"
proof (cases text_arg)
  case None
  with t show ?thesis by (simp add: preprocess_text_def)
next
  case (Some s)
  have low: "is_lowercase (strip_punct (lower s))"
    by (simp add: is_lowercase_strip_punct is_lowercase_lower)
  show ?thesis
  proof (cases "NLTK_RESOURCES_READY e")
    case False
    then have "t \<in> set (split_ws (strip_punct (lower s)))"
      using t Some by (simp add: preprocess_text_degraded)
    then show ?thesis using low by (rule split_ws_lowercase [rotated])
  next
    case True
    have ne: "s \<noteq> []" using t Some by (auto simp: preprocess_text_def)
    show ?thesis
    proof (cases "word_tokenize e (strip_punct (lower s))")
      case None
      then have "t \<in> set (split_ws (strip_punct (lower s)))"
        using t Some True ne by (simp add: preprocess_text_ready)
      then show ?thesis using low by (rule split_ws_lowercase [rotated])
    next
      case (Some ts)
      then have "t \<in> set ts"
        using t \<open>text_arg = Some s\<close> True ne by (simp add: preprocess_text_ready)
      then show ?thesis using tok True Some low by blast
    qed
  qed
qed

subsection \<open>Scenarios D and E\<close>

lemma scenario_d_text: "strip_punct (lower ''Hello, World! 123'') = ''hello world 123''"
  by code_simp

lemma scenario_d_split: "split_ws ''hello world 123'' = [''hello'', ''world'', ''123'']"
  by code_simp

lemma scenario_d_keep: "isdigit ''123''"
  by code_simp

lemma scenario_e_tokens:
  "filter (\<lambda>w. 1 < length w \<or> isdigit w) (split_ws (strip_punct (lower ''The Cat Sat'')))
   = [''the'', ''cat'', ''sat'']"
  by code_simp

lemma module_env_degraded:
  "\<not> NLTK_RESOURCES_READY (module_env False sw tok)" "STOP_WORDS (module_env False sw tok) = {}"
  by (simp_all add: module_env_def)

subsection \<open>most\_common and the slice\<close>

lemma most_common_subset: "set (most_common n c) \<subseteq> set c"
  unfolding most_common_def
  using set_take_subset [of "nat n" "sorted_reverse snd c"]
  by (simp add: set_sorted_reverse)

lemma length_most_common: "length (most_common n c) = min (nat n) (length c)"
  by (simp add: most_common_def length_sorted_reverse min.commute)

lemma distinct_keys_sorted_reverse:
  "distinct (map fst c) \<Longrightarrow> distinct (map fst (sorted_reverse k c))"
  by (simp add: distinct_map set_sorted_reverse distinct_sorted_reverse)

lemma distinct_keys_most_common:
  assumes "distinct (map fst c)"
  shows "distinct (map fst (most_common n c))"
  using distinct_keys_sorted_reverse [OF assms, of snd]
  by (simp add: most_common_def take_map [symmetric] del: take_map)

lemma most_common_rank:
  assumes "p \<in> set (most_common n c)" and "q \<in> set c" and "q \<notin> set (most_common n c)"
  shows "snd q \<le> snd p"
  using assms take_sorted_reverse_rank [of p "nat n" snd c q]
  by (simp add: most_common_def)

lemma slice_to_take: "0 \<le> n \<Longrightarrow> slice_to n xs = take (nat n) xs"
  by (simp add: slice_to_def)

lemma set_slice_to: "set (slice_to n xs) \<subseteq> set xs"
  using set_take_subset [of _ xs] by (simp add: slice_to_def)

lemma most_common_nonpos: "n \<le> 0 \<Longrightarrow> most_common n c = []"
  by (simp add: most_common_def)

lemma Counter_Nil: "Counter [] = []"
  by (simp add: Counter_def)

lemma get_keywords_unfold:
  "get_keywords e text_arg min_freq top_n =
     slice_to top_n
       (map fst (filter (\<lambda>(word, count). min_freq \<le> int count \<and> \<not> isdigit word)
          (most_common (top_n * 2) (Counter (preprocess_text e text_arg)))))"
proof (cases "preprocess_text e text_arg = []")
  case True
  then show ?thesis
    by (simp add: get_keywords_def Counter_Nil most_common_def sorted_reverse_def slice_to_def)
next
  case False
  then show ?thesis
    by (simp add: get_keywords_def Let_def)
qed

lemma keywords_filter_keys:
  assumes "set mc \<subseteq> set (Counter tokens)"
  shows "map fst (filter (\<lambda>(word, count). min_freq \<le> int count \<and> \<not> isdigit word) mc)
         = filter (\<lambda>w. min_freq \<le> int (count_list tokens w) \<and> \<not> isdigit w) (map fst mc)"
proof -
  have "filter (\<lambda>(word, count). min_freq \<le> int count \<and> \<not> isdigit word) mc
        = filter ((\<lambda>w. min_freq \<le> int (count_list tokens w) \<and> \<not> isdigit w) \<circ> fst) mc"
  proof (rule filter_cong [OF refl])
    fix p assume "p \<in> set mc"
    then have "p \<in> set (Counter tokens)" using assms by auto
    then have "snd p = count_list tokens (fst p)"
      using Counter_entry_iff [of "fst p" "snd p" tokens] by simp
    then show "(case p of (word, cnt) \<Rightarrow> min_freq \<le> int cnt \<and> \<not> isdigit word)
        = ((\<lambda>w. min_freq \<le> int (count_list tokens w) \<and> \<not> isdigit w) \<circ> fst) p"
      by (simp add: case_prod_unfold)
  qed
  then show ?thesis by (simp add: filter_map)
qed

lemma keywords_cat_dog:
  "slice_to 50 (map fst (filter (\<lambda>(word, count). 2 \<le> int count \<and> \<not> isdigit word)
      (most_common (50 * 2) (Counter [''cat'', ''cat'', ''cat'', ''dog''])))) = [''cat'']"
  by code_simp

lemma keywords_cat:
  "slice_to 50 (map fst (filter (\<lambda>(word, count). 2 \<le> int count \<and> \<not> isdigit word)
      (most_common (50 * 2) (Counter [''cat'', ''cat'', ''cat''])))) = [''cat'']"
  by code_simp

lemma scenario_c_text: "strip_punct (lower ''cat cat cat dog'') = ''cat cat cat dog''"
  by code_simp

lemma scenario_c_split: "split_ws ''cat cat cat dog'' = [''cat'', ''cat'', ''cat'', ''dog'']"
  by code_simp

section \<open>Properties\<close>



text \<open>
  C2. Whatever \<open>min_freq\<close> and \<open>top_n\<close> are, an empty list of resume tokens or an empty
  list of keywords gives the score 0 and two empty sets; so do the resume tokens \<open>[]\<close>
  with the keywords \<open>["python"]\<close>.
\<close>

theorem calculate_match_score_empty:
  "(resume_tokens = [] \<or> jd_keywords = [] \<longrightarrow>
      calculate_match_score it resume_tokens jd_keywords min_freq top_n = (0, {}, {})) \<and>
   calculate_match_score it [] [''python''] min_freq top_n = (0, {}, {})"
  by (simp add: calculate_match_score_def)

theorem calculate_match_score_empty_witness:
  "calculate_match_score (\<lambda>xs. xs) [''python''] [] 1 75 = (0, {}, {})"
  using calculate_match_score_empty [of "[''python'']" "[]" "\<lambda>xs. xs" 1 75] by simp

text \<open>
  C3. The returned matched and missing sets are disjoint, both lie in the
  frequency-filtered keyword set as it is before the cut to \<open>top_n\<close>, every returned
  matched keyword occurs among the resume tokens and no returned missing keyword does.
\<close>

theorem matched_missing_partition:
  assumes "set_iteration it"
  shows "matched_of (calculate_match_score it resume_tokens jd_keywords min_freq top_n) \<inter>
         missing_of (calculate_match_score it resume_tokens jd_keywords min_freq top_n) = {} \<and>
         matched_of (calculate_match_score it resume_tokens jd_keywords min_freq top_n) \<union>
         missing_of (calculate_match_score it resume_tokens jd_keywords min_freq top_n)
           \<subseteq> set (jd_keywords_filtered jd_keywords min_freq) \<and>
         (\<forall>w \<in> matched_of (calculate_match_score it resume_tokens jd_keywords min_freq top_n).
            w \<in> set resume_tokens) \<and>
         (\<forall>w \<in> missing_of (calculate_match_score it resume_tokens jd_keywords min_freq top_n).
            w \<notin> set resume_tokens)"
proof -
  let ?res = "calculate_match_score it resume_tokens jd_keywords min_freq top_n"
  have a: "matched_of ?res \<subseteq> set (jd_keywords_filtered jd_keywords min_freq) \<inter> set resume_tokens"
    using matched_of_subset [OF assms, of resume_tokens jd_keywords min_freq top_n]
    by (simp only: set_matched_keywords)
  have b: "missing_of ?res \<subseteq> set (jd_keywords_filtered jd_keywords min_freq) - set resume_tokens"
    using missing_of_subset [OF assms, of resume_tokens jd_keywords min_freq top_n]
    by (simp only: set_missing_keywords)
  from a b show ?thesis by blast
qed

theorem matched_missing_partition_witness:
  "set_iteration rev \<and>
   matched_of (calculate_match_score rev [''b'', ''a''] [''a'', ''c'', ''d''] 1 1) = {''a''} \<and>
   missing_of (calculate_match_score rev [''b'', ''a''] [''a'', ''c'', ''d''] 1 1) \<inter> {''a''} = {} \<and>
   missing_of (calculate_match_score rev [''b'', ''a''] [''a'', ''c'', ''d''] 1 1)
     \<subseteq> {''a'', ''c'', ''d''}"
proof -
  have f: "jd_keywords_filtered [''a'', ''c'', ''d''] 1 = [''a'', ''c'', ''d'']"
    by code_simp
  have m: "matched_of (calculate_match_score rev [''b'', ''a''] [''a'', ''c'', ''d''] 1 1) = {''a''}"
    by code_simp
  show ?thesis
    using matched_missing_partition [OF set_iteration_rev, of "[''b'', ''a'']" "[''a'', ''c'', ''d'']" 1 1]
      set_iteration_rev
    unfolding m f by auto
qed

text \<open>
  C4. With \<open>top_n > 0\<close> each returned set has at most \<open>top_n\<close> elements, in fact
  \<open>top_n\<close> of them or the whole set if that is smaller, and what is kept ranks highest:
  no keyword that was cut occurs more often among the resume tokens than a keyword that
  was kept.
\<close>

theorem top_n_cut:
  assumes "set_iteration it" and "0 < top_n"
  shows "(let res = calculate_match_score it resume_tokens jd_keywords min_freq top_n;
              matched = set (matched_keywords resume_tokens jd_keywords min_freq);
              missing = set (missing_keywords resume_tokens jd_keywords min_freq)
          in int (card (matched_of res)) \<le> top_n \<and> int (card (missing_of res)) \<le> top_n \<and>
             matched_of res \<subseteq> matched \<and> missing_of res \<subseteq> missing \<and>
             (resume_tokens \<noteq> [] \<and> jd_keywords \<noteq> [] \<longrightarrow>
                card (matched_of res) = min (nat top_n) (card matched) \<and>
                card (missing_of res) = min (nat top_n) (card missing)) \<and>
             (\<forall>x \<in> matched_of res. \<forall>y \<in> matched - matched_of res.
                count_list resume_tokens y \<le> count_list resume_tokens x) \<and>
             (\<forall>x \<in> missing_of res. \<forall>y \<in> missing - missing_of res.
                count_list resume_tokens y \<le> count_list resume_tokens x))"
proof -
  let ?res = "calculate_match_score it resume_tokens jd_keywords min_freq top_n"
  let ?ma = "matched_keywords resume_tokens jd_keywords min_freq"
  let ?mi = "missing_keywords resume_tokens jd_keywords min_freq"
  have cm: "card (top_keywords it (Counter resume_tokens) top_n ?ma) = min (nat top_n) (card (set ?ma))"
    using card_top_keywords [OF assms(1) distinct_matched_keywords]
    by (simp add: distinct_card [OF distinct_matched_keywords])
  have ci: "card (top_keywords it (Counter resume_tokens) top_n ?mi) = min (nat top_n) (card (set ?mi))"
    using card_top_keywords [OF assms(1) distinct_missing_keywords]
    by (simp add: distinct_card [OF distinct_missing_keywords])
  have c1: "int (card (matched_of ?res)) \<le> top_n"
    using assms(2) cm by (auto simp: matched_of_calculate)
  have c2: "int (card (missing_of ?res)) \<le> top_n"
    using assms(2) ci by (auto simp: missing_of_calculate)
  have e: "resume_tokens \<noteq> [] \<and> jd_keywords \<noteq> [] \<longrightarrow>
           card (matched_of ?res) = min (nat top_n) (card (set ?ma)) \<and>
           card (missing_of ?res) = min (nat top_n) (card (set ?mi))"
    using assms(2) cm ci by (simp add: matched_of_calculate missing_of_calculate)
  have r1: "\<forall>x \<in> matched_of ?res. \<forall>y \<in> set ?ma - matched_of ?res.
              count_list resume_tokens y \<le> count_list resume_tokens x"
  proof (intro ballI)
    fix x y
    assume x: "x \<in> matched_of ?res" and y: "y \<in> set ?ma - matched_of ?res"
    then have ne: "\<not> (resume_tokens = [] \<or> jd_keywords = [])"
      by (auto simp: matched_of_calculate)
    with x y assms(2) show "count_list resume_tokens y \<le> count_list resume_tokens x"
      using top_keywords_rank [OF assms(1), of x "Counter resume_tokens" top_n ?ma y]
      by (simp add: matched_of_calculate counter_get_Counter)
  qed
  have r2: "\<forall>x \<in> missing_of ?res. \<forall>y \<in> set ?mi - missing_of ?res.
              count_list resume_tokens y \<le> count_list resume_tokens x"
  proof (intro ballI)
    fix x y
    assume x: "x \<in> missing_of ?res" and y: "y \<in> set ?mi - missing_of ?res"
    then have ne: "\<not> (resume_tokens = [] \<or> jd_keywords = [])"
      by (auto simp: missing_of_calculate)
    with x y assms(2) show "count_list resume_tokens y \<le> count_list resume_tokens x"
      using top_keywords_rank [OF assms(1), of x "Counter resume_tokens" top_n ?mi y]
      by (simp add: missing_of_calculate counter_get_Counter)
  qed
  show ?thesis
    using c1 c2 e r1 r2 matched_of_subset [OF assms(1), of resume_tokens jd_keywords min_freq top_n]
      missing_of_subset [OF assms(1), of resume_tokens jd_keywords min_freq top_n]
    unfolding Let_def by blast
qed

theorem top_n_cut_witness:
  "set_iteration (\<lambda>xs. xs) \<and> (0::int) < 1 \<and>
   matched_of (calculate_match_score (\<lambda>xs. xs) [''b'', ''a'', ''b''] [''a'', ''b'', ''c''] 1 1) = {''b''} \<and>
   card (missing_of (calculate_match_score (\<lambda>xs. xs) [''b'', ''a'', ''b''] [''a'', ''b'', ''c''] 1 1)) \<le> 1"
proof -
  have m: "matched_of (calculate_match_score (\<lambda>xs. xs) [''b'', ''a'', ''b''] [''a'', ''b'', ''c''] 1 1) = {''b''}"
    by code_simp
  show ?thesis
    using top_n_cut [OF set_iteration_ident, of 1 "[''b'', ''a'', ''b'']" "[''a'', ''b'', ''c'']" 1]
      set_iteration_ident
    unfolding Let_def m by simp
qed

text \<open>
  C5. get\_keywords returns at most \<open>top_n\<close> items, none of them a digit string, each
  occurring at least \<open>min_freq\<close> times among the tokens. The candidates are the first
  \<open>2 * top_n\<close> distinct tokens by descending count: no token outside them occurs more
  often than one of them; the result is the first \<open>top_n\<close> candidates that pass the
  frequency and digit tests. "cat cat cat dog" with \<open>min_freq = 2\<close> and \<open>top_n = 50\<close>
  gives cat, provided cat is not a stopword and the tokenizer, where it is used, splits
  the text at the blanks or raises.
\<close>

theorem get_keywords_bounded:
  "(let tokens = preprocess_text e text_arg;
        result = get_keywords e text_arg min_freq top_n;
        candidates = map fst (most_common (top_n * 2) (Counter tokens))
    in length result \<le> nat top_n \<and>
       (\<forall>w \<in> set result. \<not> isdigit w \<and> min_freq \<le> int (count_list tokens w)) \<and>
       result = take (nat top_n)
         (filter (\<lambda>w. min_freq \<le> int (count_list tokens w) \<and> \<not> isdigit w) candidates) \<and>
       distinct candidates \<and> set candidates \<subseteq> set tokens \<and>
       length candidates = min (nat (top_n * 2)) (card (set tokens)) \<and>
       (\<forall>w \<in> set candidates. \<forall>v \<in> set tokens - set candidates.
          count_list tokens v \<le> count_list tokens w)) \<and>
   (''cat'' \<notin> STOP_WORDS e \<and>
    (NLTK_RESOURCES_READY e \<longrightarrow>
       word_tokenize e ''cat cat cat dog'' = Some [''cat'', ''cat'', ''cat'', ''dog''] \<or>
       word_tokenize e ''cat cat cat dog'' = None) \<longrightarrow>
    get_keywords e (Some ''cat cat cat dog'') 2 50 = [''cat''])"
proof -
  define tokens where "tokens = preprocess_text e text_arg"
  define mc where "mc = most_common (top_n * 2) (Counter tokens)"
  define ok where "ok = (\<lambda>w. min_freq \<le> int (count_list tokens w) \<and> \<not> isdigit w)"
  let ?result = "get_keywords e text_arg min_freq top_n"
  have sub: "set mc \<subseteq> set (Counter tokens)"
    unfolding mc_def by (rule most_common_subset)
  have res: "?result = slice_to top_n (filter ok (map fst mc))"
    unfolding get_keywords_unfold tokens_def [symmetric] mc_def [symmetric] ok_def
    by (simp only: keywords_filter_keys [OF sub])
  have p2: "\<forall>w \<in> set ?result. \<not> isdigit w \<and> min_freq \<le> int (count_list tokens w)"
    using set_slice_to [of top_n "filter ok (map fst mc)"] unfolding res
    by (auto simp: ok_def)
  have p3: "?result = take (nat top_n) (filter ok (map fst mc))"
  proof (cases "0 \<le> top_n")
    case True
    then show ?thesis unfolding res by (rule slice_to_take)
  next
    case False
    then have "mc = []" unfolding mc_def by (simp add: most_common_nonpos)
    then show ?thesis unfolding res by (simp add: slice_to_def)
  qed
  have p1: "length ?result \<le> nat top_n"
    unfolding p3 by simp
  have p4: "distinct (map fst mc)"
    unfolding mc_def using distinct_keys_Counter by (rule distinct_keys_most_common)
  have p5: "set (map fst mc) \<subseteq> set tokens"
    using sub by (auto simp: Counter_entry_iff)
  have lenC: "length (Counter tokens) = card (set tokens)"
    using distinct_card [OF distinct_keys_Counter, of tokens] set_keys_Counter [of tokens]
    by (simp add: keys_def)
  have p6: "length (map fst mc) = min (nat (top_n * 2)) (card (set tokens))"
    by (simp add: mc_def length_most_common lenC)
  have p7: "\<forall>w \<in> set (map fst mc). \<forall>v \<in> set tokens - set (map fst mc).
          count_list tokens v \<le> count_list tokens w"
  proof (intro ballI)
    fix w v
    assume w: "w \<in> set (map fst mc)" and v: "v \<in> set tokens - set (map fst mc)"
    from w obtain a where a: "(w, a) \<in> set mc" by auto
    then have a': "a = count_list tokens w" using sub by (auto simp: Counter_entry_iff)
    have q: "(v, count_list tokens v) \<in> set (Counter tokens)"
      using v by (simp add: Counter_entry_iff)
    have "(v, count_list tokens v) \<notin> set mc"
      using v by force
    then have "snd (v, count_list tokens v) \<le> snd (w, a)"
      using a q most_common_rank [of "(w, a)" "top_n * 2" "Counter tokens" "(v, count_list tokens v)"]
      by (simp add: mc_def)
    then show "count_list tokens v \<le> count_list tokens w"
      using a' by simp
  qed
  have ex: "get_keywords e (Some ''cat cat cat dog'') 2 50 = [''cat'']"
    if sw: "''cat'' \<notin> STOP_WORDS e"
      and tk: "NLTK_RESOURCES_READY e \<longrightarrow>
       word_tokenize e ''cat cat cat dog'' = Some [''cat'', ''cat'', ''cat'', ''dog''] \<or>
       word_tokenize e ''cat cat cat dog'' = None"
  proof -
    have ne: "''cat cat cat dog'' \<noteq> []" by simp
    have pre: "preprocess_text e (Some ''cat cat cat dog'')
        = filter (keep_token e) [''cat'', ''cat'', ''cat'', ''dog'']"
    proof (cases "NLTK_RESOURCES_READY e")
      case False
      then show ?thesis
        by (simp only: preprocess_text_degraded [OF False] scenario_c_text scenario_c_split)
    next
      case True
      with tk show ?thesis
        by (auto simp only: preprocess_text_ready [OF True ne] scenario_c_text scenario_c_split
            option.case)
    qed
    have kc: "keep_token e ''cat''"
      using sw by (simp add: keep_token_def)
    show ?thesis
    proof (cases "keep_token e ''dog''")
      case True
      then have "preprocess_text e (Some ''cat cat cat dog'') = [''cat'', ''cat'', ''cat'', ''dog'']"
        using kc by (simp add: pre)
      then show ?thesis
        by (simp only: get_keywords_unfold keywords_cat_dog)
    next
      case False
      then have "preprocess_text e (Some ''cat cat cat dog'') = [''cat'', ''cat'', ''cat'']"
        using kc by (simp add: pre)
      then show ?thesis
        by (simp only: get_keywords_unfold keywords_cat)
    qed
  qed
  show ?thesis
    unfolding Let_def tokens_def [symmetric] mc_def [symmetric]
    using p1 p2 p3 p4 p5 p6 p7 ex unfolding ok_def by blast
qed

theorem get_keywords_bounded_witness:
  "get_keywords (module_env True {''the'', ''dog''} (\<lambda>s. None)) (Some ''cat cat cat dog'') 2 50
   = [''cat'']"
proof -
  let ?e = "module_env True {''the'', ''dog''} (\<lambda>s. None)"
  have h1: "''cat'' \<notin> STOP_WORDS ?e"
    by (simp add: module_env_def)
  have h2: "NLTK_RESOURCES_READY ?e \<longrightarrow>
       word_tokenize ?e ''cat cat cat dog'' = Some [''cat'', ''cat'', ''cat'', ''dog''] \<or>
       word_tokenize ?e ''cat cat cat dog'' = None"
    by (simp add: module_env_def)
  show ?thesis
    using get_keywords_bounded [of ?e "Some ''cat cat cat dog''" 2 50] h1 h2 by blast
qed

text \<open>
  C6. Every token that preprocess\_text returns has at least one character, and a token
  of one character is a digit; every token is lowercase, NLTK's tokenizer being taken to
  return lowercase tokens on a lowercase text; the empty text and \<open>None\<close> give the empty
  list. "Hello, World! 123" gives hello, world, 123 when none of the three is a stopword
  and the tokenizer, where it is used, splits "hello world 123" into these words or raises.
\<close>

theorem preprocess_text_tokens:
  "((NLTK_RESOURCES_READY e \<longrightarrow>
       (\<forall>text ts. word_tokenize e text = Some ts \<longrightarrow> is_lowercase text \<longrightarrow>
          (\<forall>t \<in> set ts. is_lowercase t))) \<longrightarrow>
    (\<forall>t \<in> set (preprocess_text e text_arg). is_lowercase t)) \<and>
   (\<forall>t \<in> set (preprocess_text e text_arg). 1 \<le> length t \<and> (length t = 1 \<longrightarrow> isdigit t)) \<and>
   preprocess_text e (Some []) = [] \<and> preprocess_text e None = [] \<and>
   ({''hello'', ''world'', ''123''} \<inter> STOP_WORDS e = {} \<and>
    (NLTK_RESOURCES_READY e \<longrightarrow>
       word_tokenize e ''hello world 123'' = Some [''hello'', ''world'', ''123''] \<or>
       word_tokenize e ''hello world 123'' = None) \<longrightarrow>
    preprocess_text e (Some ''Hello, World! 123'') = [''hello'', ''world'', ''123''])"
proof -
  have a: "(NLTK_RESOURCES_READY e \<longrightarrow>
       (\<forall>text ts. word_tokenize e text = Some ts \<longrightarrow> is_lowercase text \<longrightarrow>
          (\<forall>t \<in> set ts. is_lowercase t))) \<longrightarrow>
    (\<forall>t \<in> set (preprocess_text e text_arg). is_lowercase t)"
    using preprocess_text_lowercase [of e _ text_arg] by blast
  have b: "\<forall>t \<in> set (preprocess_text e text_arg). 1 \<le> length t \<and> (length t = 1 \<longrightarrow> isdigit t)"
    using preprocess_text_kept keep_token_length by blast
  have c: "preprocess_text e (Some []) = []" "preprocess_text e None = []"
    by (simp_all add: preprocess_text_def)
  have d: "preprocess_text e (Some ''Hello, World! 123'') = [''hello'', ''world'', ''123'']"
    if sw: "{''hello'', ''world'', ''123''} \<inter> STOP_WORDS e = {}"
      and tk: "NLTK_RESOURCES_READY e \<longrightarrow>
       word_tokenize e ''hello world 123'' = Some [''hello'', ''world'', ''123''] \<or>
       word_tokenize e ''hello world 123'' = None"
  proof -
    have keep: "filter (keep_token e) [''hello'', ''world'', ''123''] = [''hello'', ''world'', ''123'']"
      using sw scenario_d_keep by (simp add: keep_token_def)
    show ?thesis
    proof (cases "NLTK_RESOURCES_READY e")
      case False
      then show ?thesis
        by (simp only: preprocess_text_degraded [OF False] scenario_d_text scenario_d_split keep)
    next
      case True
      have ne: "''Hello, World! 123'' \<noteq> []" by simp
      from True tk show ?thesis
        by (auto simp only: preprocess_text_ready [OF True ne] scenario_d_text scenario_d_split
            keep option.case)
    qed
  qed
  from a b c d show ?thesis by blast
qed

theorem preprocess_text_tokens_witness:
  "preprocess_text (module_env True {''the'', ''and''} (\<lambda>text. Some (split_ws text)))
     (Some ''Hello, World! 123'') = [''hello'', ''world'', ''123''] \<and>
   is_lowercase ''hello'' \<and> is_lowercase ''world'' \<and> is_lowercase ''123''"
proof -
  let ?e = "module_env True {''the'', ''and''} (\<lambda>text. Some (split_ws text))"
  have r: "NLTK_RESOURCES_READY ?e" and s: "STOP_WORDS ?e = {''the'', ''and''}"
    and w: "word_tokenize ?e = (\<lambda>text. Some (split_ws text))"
    by (simp_all add: module_env_def)
  have h1: "NLTK_RESOURCES_READY ?e \<longrightarrow>
       (\<forall>text ts. word_tokenize ?e text = Some ts \<longrightarrow> is_lowercase text \<longrightarrow>
          (\<forall>t \<in> set ts. is_lowercase t))"
    unfolding w using split_ws_lowercase by auto
  have h2: "{''hello'', ''world'', ''123''} \<inter> STOP_WORDS ?e = {}"
    unfolding s by simp
  have h3: "NLTK_RESOURCES_READY ?e \<longrightarrow>
       word_tokenize ?e ''hello world 123'' = Some [''hello'', ''world'', ''123''] \<or>
       word_tokenize ?e ''hello world 123'' = None"
    unfolding w by (simp add: scenario_d_split)
  have "preprocess_text ?e (Some ''Hello, World! 123'') = [''hello'', ''world'', ''123''] \<and>
        (\<forall>t \<in> set (preprocess_text ?e (Some ''Hello, World! 123'')). is_lowercase t)"
    using preprocess_text_tokens [of ?e "Some ''Hello, World! 123''"] h1 h2 h3 by blast
  then show ?thesis
    by auto
qed

text \<open>
  C7. When \<open>NLTK_RESOURCES_READY\<close> is false the stopword set is empty and
  preprocess\_text is total: on every text it returns the whitespace split of the
  lowercased text without punctuation, less the one-character tokens that are not digits,
  and NLTK is not called. "The Cat Sat" gives the, cat, sat.
\<close>

theorem preprocess_text_degraded_mode:
  "\<not> NLTK_RESOURCES_READY (module_env False sw tok) \<and>
   STOP_WORDS (module_env False sw tok) = {} \<and>
   preprocess_text (module_env False sw tok) text_arg =
     (case text_arg of
        None \<Rightarrow> []
      | Some text \<Rightarrow> filter (\<lambda>w. 1 < length w \<or> isdigit w) (split_ws (strip_punct (lower text)))) \<and>
   preprocess_text (module_env False sw tok) (Some ''The Cat Sat'') = [''the'', ''cat'', ''sat'']"
proof -
  have k: "keep_token (module_env False sw tok) = (\<lambda>w. 1 < length w \<or> isdigit w)"
    by (simp add: keep_token_def module_env_degraded fun_eq_iff)
  have g: "preprocess_text (module_env False sw tok) (Some s) =
      filter (\<lambda>w. 1 < length w \<or> isdigit w) (split_ws (strip_punct (lower s)))" for s
    by (simp only: preprocess_text_degraded [OF module_env_degraded(1)] k)
  have n: "preprocess_text (module_env False sw tok) None = []"
    by (simp add: preprocess_text_def)
  have "preprocess_text (module_env False sw tok) text_arg =
     (case text_arg of
        None \<Rightarrow> []
      | Some text \<Rightarrow> filter (\<lambda>w. 1 < length w \<or> isdigit w) (split_ws (strip_punct (lower text))))"
    by (cases text_arg) (simp_all only: g n option.case)
  moreover have "preprocess_text (module_env False sw tok) (Some ''The Cat Sat'')
      = [''the'', ''cat'', ''sat'']"
    by (simp only: g scenario_e_tokens)
  ultimately show ?thesis
    using module_env_degraded [of sw tok] by simp
qed

theorem preprocess_text_degraded_mode_witness:
  "preprocess_text (module_env False {''the''} (\<lambda>text. None)) (Some ''The Cat Sat'')
   = [''the'', ''cat'', ''sat'']"
  using preprocess_text_degraded_mode [of "{''the''}" "\<lambda>text. None" "Some ''The Cat Sat''"]
  by blast

text \<open>
  C8. When two inputs give the same non-empty filtered keyword set and the matched set
  of the second (the intersection of line 140) has at least as many elements as that of
  the first, the score of the second is at least the score of the first.
\<close>

theorem score_monotone:
  assumes "set (jd_keywords_filtered jd1 mf1) = set (jd_keywords_filtered jd2 mf2)"
    and "set (jd_keywords_filtered jd1 mf1) \<noteq> {}"
    and "card (set (matched_keywords r1 jd1 mf1)) \<le> card (set (matched_keywords r2 jd2 mf2))"
  shows "score_of (calculate_match_score it1 r1 jd1 mf1 tn1)
         \<le> score_of (calculate_match_score it2 r2 jd2 mf2 tn2)"
proof -
  have len: "length (jd_keywords_filtered jd1 mf1) = length (jd_keywords_filtered jd2 mf2)"
    using assms(1) by (rule length_filtered_cong)
  have ne1: "jd_keywords_filtered jd1 mf1 \<noteq> []" using assms(2) by auto
  then have ne2: "jd_keywords_filtered jd2 mf2 \<noteq> []" using len by auto
  have jd: "jd1 \<noteq> []" "jd2 \<noteq> []"
    using ne1 ne2 jd_keywords_filtered_Nil by auto
  have m: "length (matched_keywords r1 jd1 mf1) \<le> length (matched_keywords r2 jd2 mf2)"
    using assms(3) by (simp add: distinct_card [OF distinct_matched_keywords])
  have raw: "raw_score r1 jd1 mf1 \<le> raw_score r2 jd2 mf2"
    using m ne1 ne2 len by (simp add: raw_score_def divide_right_mono)
  show ?thesis
  proof (cases "r1 = []")
    case True
    then show ?thesis
      using score_of_nonneg [of it2 r2 jd2 mf2 tn2] by (simp add: score_of_calculate)
  next
    case r1: False
    show ?thesis
    proof (cases "r2 = []")
      case True
      then have "length (matched_keywords r1 jd1 mf1) = 0"
        using m by (simp add: matched_keywords_Nil)
      then have "raw_score r1 jd1 mf1 = 0"
        by (simp add: raw_score_def)
      then show ?thesis
        using True r1 jd by (simp add: score_of_calculate round2_zero)
    next
      case False
      then show ?thesis
        using r1 jd round2_mono [OF raw] by (simp add: score_of_calculate)
    qed
  qed
qed

theorem score_monotone_witness:
  "set (jd_keywords_filtered [''a'', ''b''] 1) = set (jd_keywords_filtered [''b'', ''a'', ''b''] 1) \<and>
   set (jd_keywords_filtered [''a'', ''b''] 1) \<noteq> {} \<and>
   card (set (matched_keywords [''c''] [''a'', ''b''] 1))
     \<le> card (set (matched_keywords [''a''] [''b'', ''a'', ''b''] 1)) \<and>
   score_of (calculate_match_score id [''c''] [''a'', ''b''] 1 75)
     \<le> score_of (calculate_match_score rev [''a''] [''b'', ''a'', ''b''] 1 75)"
proof -
  have f: "jd_keywords_filtered [''a'', ''b''] 1 = [''a'', ''b'']"
    "jd_keywords_filtered [''b'', ''a'', ''b''] 1 = [''b'', ''a'']"
    by code_simp+
  have m: "matched_keywords [''c''] [''a'', ''b''] 1 = []"
    "matched_keywords [''a''] [''b'', ''a'', ''b''] 1 = [''a'']"
    by code_simp+
  have h1: "set (jd_keywords_filtered [''a'', ''b''] 1) = set (jd_keywords_filtered [''b'', ''a'', ''b''] 1)"
    unfolding f by auto
  have h2: "set (jd_keywords_filtered [''a'', ''b''] 1) \<noteq> {}"
    unfolding f by simp
  have h3: "card (set (matched_keywords [''c''] [''a'', ''b''] 1))
     \<le> card (set (matched_keywords [''a''] [''b'', ''a'', ''b''] 1))"
    unfolding m by simp
  show ?thesis
    using score_monotone [OF h1 h2 h3, of id 75 rev 75] h1 h2 h3 by simp
qed







end
